theory Spec2Isabelle
  imports Main "HOL-Library.Word"
begin

section \<open>The lite-format AES-GCM crypt stream (lite\_stream.cpp)\<close>

text \<open>
  The stream object, the inner stream it wraps and the primitives it calls are embedded
  as follows.
  \<^item> \<open>offset_type\<close> and \<open>length_type\<close> are unsigned 64-bit integers, \<open>unsigned\<close> is
    32 bits wide, a byte is an 8-bit word; all arithmetic wraps as in the source.
  \<^item> An exception is a value of \<open>error\<close>; every method returns its result together
    with the state it leaves behind, also when it throws.
  \<^item> The AES primitives of the cryptographic library and the random generator are
    parameters (record \<open>primitives\<close>).
  \<^item> Diagnostic output (\<open>OperationLogger\<close>, \<open>warn_if_key_not_random\<close>, the logging
    macros) only writes to the log and is left out.
\<close>

type_synonym byte = "8 word"
type_synonym offset_type = "64 word"
type_synonym length_type = "64 word"

datatype error =
    InvalidArgument string
  | StreamTooLong length_type length_type
  | MessageVerification

text \<open>Calls that leave the object: on the inner stream, the random generator and AES-GCM.\<close>

datatype event =
    StreamRead offset_type length_type
  | StreamWrite offset_type "byte list"
  | GenerateRandom nat
  | EncryptAndAuthenticate "byte list" "byte list" "byte list"
  | DecryptAndVerify "byte list" "byte list" "byte list" "byte list"

record primitives =
  aes_ecb :: "byte list \<Rightarrow> byte list \<Rightarrow> byte list"
  gcm_encrypt :: "byte list \<Rightarrow> byte list \<Rightarrow> byte list \<Rightarrow> byte list \<Rightarrow> byte list \<times> byte list"
  gcm_decrypt :: "byte list \<Rightarrow> byte list \<Rightarrow> byte list \<Rightarrow> byte list \<Rightarrow> byte list \<Rightarrow> byte list \<times> bool"
  csprng :: "nat \<Rightarrow> byte"

text \<open>
  \<open>aes_ecb key data\<close> is the ECB encryption of \<open>data\<close>; \<open>gcm_encrypt key iv aad msg\<close>
  gives the ciphertext (as long as \<open>msg\<close>) and the 16-byte tag;
  \<open>gcm_decrypt key iv aad ct tag\<close> gives the decrypted bytes and whether the tag verified
  (the library writes the decrypted bytes in both cases); \<open>csprng\<close> is the sequence of
  bytes the generator hands out, \<open>drawn\<close> counts how many have been taken.
\<close>

record world =
  drawn :: nat
  trace :: "event list"

definition emit :: "event \<Rightarrow> world \<Rightarrow> world" where
  "emit e w = w\<lparr>trace := trace w @ [e]\<rparr>"

text \<open>Modelled from the spec: \<open>is_all_zeros\<close>, \<open>generate_random\<close> and
  \<open>to_little_endian\<close> of the byte utilities (myutils.h is not among the sources).\<close>

definition is_all_zeros :: "byte list \<Rightarrow> bool" where
  "is_all_zeros xs = list_all (\<lambda>b. b = 0) xs"

definition generate_random :: "primitives \<Rightarrow> nat \<Rightarrow> world \<Rightarrow> byte list \<times> world" where
  "generate_random P n w =
     (map (csprng P) [drawn w ..< drawn w + n],
      emit (GenerateRandom n) (w\<lparr>drawn := drawn w + n\<rparr>))"

definition to_little_endian :: "32 word \<Rightarrow> byte list" where
  "to_little_endian x =
     [ucast x, ucast (drop_bit 8 x), ucast (drop_bit 16 x), ucast (drop_bit 24 x)]"

text \<open>Modelled from the spec: the inner \<open>StreamBase\<close> (an interface; its implementations
  are not among the sources) as the bytes it stores. A read is short at the end of the
  stream; a write past the end fills the gap with zeros.\<close>

definition stream_read :: "byte list \<Rightarrow> offset_type \<Rightarrow> length_type \<Rightarrow> byte list" where
  "stream_read d off len = take (unat len) (drop (unat off) d)"

definition stream_write :: "byte list \<Rightarrow> offset_type \<Rightarrow> byte list \<Rightarrow> byte list" where
  "stream_write d off bs =
     take (unat off) (d @ replicate (unat off - length d) 0) @ bs
       @ drop (unat off + length bs) d"

definition stream_size :: "byte list \<Rightarrow> length_type" where
  "stream_size d = of_nat (length d)"

text \<open>\<open>memset(buf, 0, n)\<close>, and writing the bytes \<open>bs\<close> at the start of \<open>buf\<close>.\<close>

definition memset0 :: "byte list \<Rightarrow> nat \<Rightarrow> byte list" where
  "memset0 buf n = replicate n 0 @ drop n buf"

definition overwrite :: "byte list \<Rightarrow> byte list \<Rightarrow> byte list" where
  "overwrite buf bs = bs @ drop (length bs) buf"

subsection \<open>The object\<close>

text \<open>\<open>m_stream\<close> is the inner stream the object holds; \<open>m_session_key\<close> stands for
  \<open>m_encryptor\<close> and \<open>m_decryptor\<close>, both keyed with the session key. \<open>m_buffer\<close> is
  scratch space of \<open>underlying_block_size\<close> bytes, filled anew by every call: it is a
  local value of \<open>read_block\<close> and \<open>write_block\<close>.\<close>

record AESGCMCryptStream =
  m_stream :: "byte list"
  m_block_size :: length_type
  m_iv_size :: "32 word"
  m_check :: bool
  m_session_key :: "byte list"

definition MAX_BLOCKS :: offset_type where
  "MAX_BLOCKS = push_bit 31 1 - 1"

text \<open>Modelled from the spec: the accessors declared in lite\_stream.h (not among the
  sources): \<open>mac_size = 16\<close>, \<open>header_size = 32\<close>,
  \<open>underlying_block_size = block_size + iv_size + mac_size\<close>. They are taken at the
  width of \<open>length_type\<close>; for the sizes the constructor accepts no sum of them wraps at
  32 bits either.\<close>

definition get_mac_size :: length_type where
  "get_mac_size = 16"

definition get_header_size :: length_type where
  "get_header_size = 32"

definition get_block_size :: "AESGCMCryptStream \<Rightarrow> length_type" where
  "get_block_size s = m_block_size s"

definition get_iv_size :: "AESGCMCryptStream \<Rightarrow> length_type" where
  "get_iv_size s = ucast (m_iv_size s)"

definition get_underlying_block_size :: "AESGCMCryptStream \<Rightarrow> length_type" where
  "get_underlying_block_size s = get_block_size s + get_iv_size s + get_mac_size"

subsection \<open>Construction\<close>

definition AESGCMCryptStream_new ::
  "primitives \<Rightarrow> byte list option \<Rightarrow> byte list \<Rightarrow> 32 word \<Rightarrow> 32 word \<Rightarrow> bool \<Rightarrow> world
     \<Rightarrow> (error + AESGCMCryptStream) \<times> world" where
  "AESGCMCryptStream_new P stream master_key block_size iv_size check w =
     (if iv_size < 12 \<or> iv_size > 32
        then (Inl (InvalidArgument ''IV size too small or too large''), w)
      else case stream of
        None \<Rightarrow> (Inl (InvalidArgument ''Null stream''), w)
      | Some d \<Rightarrow>
          if block_size < 32 then (Inl (InvalidArgument ''Block size too small''), w)
          else
            let header = stream_read d 0 get_header_size;
                w1 = emit (StreamRead 0 get_header_size) w;
                rc = length header
            in if rc = 0 then
                 let (fresh, w2) = generate_random P (unat get_header_size) w1;
                     d' = stream_write d 0 fresh;
                     w3 = emit (StreamWrite 0 fresh) w2
                 in (Inr \<lparr>m_stream = d', m_block_size = ucast block_size,
                           m_iv_size = iv_size, m_check = check,
                           m_session_key = aes_ecb P master_key fresh\<rparr>, w3)
               else if rc \<noteq> unat get_header_size then
                 (Inl (InvalidArgument ''Underlying stream has invalid header size''), w1)
               else
                 (Inr \<lparr>m_stream = d, m_block_size = ucast block_size,
                        m_iv_size = iv_size, m_check = check,
                        m_session_key = aes_ecb P master_key header\<rparr>, w1))"

text \<open>What the constructor's checks leave true of every stream object.\<close>

definition constructed :: "AESGCMCryptStream \<Rightarrow> bool" where
  "constructed s \<longleftrightarrow>
     12 \<le> m_iv_size s \<and> m_iv_size s \<le> 32 \<and> 32 \<le> m_block_size s \<and> m_block_size s < 2 ^ 32"

subsection \<open>Reading and writing a block\<close>

text \<open>\<open>output\<close> is the caller's buffer, returned as the call leaves it. The \<open>input\<close> of
  \<open>write_block\<close> is the \<open>size\<close> bytes the caller passes. The library writes as many bytes
  of ciphertext as there are of plaintext and 16 bytes of tag, so the buffer that
  \<open>write_block\<close> hands to the inner stream is the IV, the ciphertext and the tag in a row.\<close>

definition read_block ::
  "primitives \<Rightarrow> AESGCMCryptStream \<Rightarrow> offset_type \<Rightarrow> byte list \<Rightarrow> world
     \<Rightarrow> (error + length_type) \<times> byte list \<times> world" where
  "read_block P s block_number output w =
     (if block_number > MAX_BLOCKS
        then (Inl (StreamTooLong (MAX_BLOCKS * get_block_size s)
                                 (block_number * get_block_size s)), output, w)
      else
        let off = get_header_size + get_underlying_block_size s * block_number;
            buffer = stream_read (m_stream s) off (get_underlying_block_size s);
            w1 = emit (StreamRead off (get_underlying_block_size s)) w;
            rc = (of_nat (length buffer) :: length_type)
        in if rc \<le> get_mac_size + get_iv_size s then (Inr 0, output, w1)
           else if rc > get_underlying_block_size s
             then (Inl (InvalidArgument ''Invalid read''), output, w1)
           else
             let out_size = rc - get_iv_size s - get_mac_size
             in if is_all_zeros buffer
                  then (Inr out_size, memset0 output (unat (get_block_size s)), w1)
                else
                  let auxiliary = to_little_endian (ucast block_number);
                      iv = take (unat (get_iv_size s)) buffer;
                      tag = take (unat get_mac_size) (drop (unat (rc - get_mac_size)) buffer);
                      ct = take (unat out_size) (drop (unat (get_iv_size s)) buffer);
                      (plain, success) = gcm_decrypt P (m_session_key s) iv auxiliary ct tag;
                      w2 = emit (DecryptAndVerify iv auxiliary ct tag) w1;
                      output' = overwrite output plain
                  in if m_check s \<and> \<not> success
                       then (Inl MessageVerification, output', w2)
                     else (Inr out_size, output', w2))"

text \<open>The redraw loop of \<open>write_block\<close>: it has no bound of its own, so it is a partial
  function; \<open>None\<close> stands for a loop that never ends.\<close>

partial_function (option) draw_iv ::
  "primitives \<Rightarrow> nat \<Rightarrow> world \<Rightarrow> (byte list \<times> world) option" where
  "draw_iv P n w =
     (if is_all_zeros (fst (generate_random P n w))
        then draw_iv P n (snd (generate_random P n w))
      else Some (generate_random P n w))"

definition write_block ::
  "primitives \<Rightarrow> AESGCMCryptStream \<Rightarrow> offset_type \<Rightarrow> byte list \<Rightarrow> world
     \<Rightarrow> ((error + unit) \<times> AESGCMCryptStream \<times> world) option" where
  "write_block P s block_number input w =
     (let size = (of_nat (length input) :: length_type)
      in if block_number > MAX_BLOCKS
           then Some (Inl (StreamTooLong (MAX_BLOCKS * get_block_size s)
                                         (block_number * get_block_size s)), s, w)
         else
           let underlying_offset =
                 block_number * get_underlying_block_size s + get_header_size;
               underlying_size = size + get_iv_size s + get_mac_size
           in if is_all_zeros input then
                let buffer = replicate (unat underlying_size) 0
                in Some (Inr (), s\<lparr>m_stream := stream_write (m_stream s) underlying_offset buffer\<rparr>,
                         emit (StreamWrite underlying_offset buffer) w)
              else
                let auxiliary = to_little_endian (ucast block_number)
                in case draw_iv P (unat (get_iv_size s)) w of
                     None \<Rightarrow> None
                   | Some (iv, w1) \<Rightarrow>
                       let (ct, tag) = gcm_encrypt P (m_session_key s) iv auxiliary input;
                           w2 = emit (EncryptAndAuthenticate iv auxiliary input) w1;
                           buffer = iv @ ct @ tag
                       in Some (Inr (), s\<lparr>m_stream := stream_write (m_stream s) underlying_offset buffer\<rparr>,
                                emit (StreamWrite underlying_offset buffer) w2))"

text \<open>The \<open>k\<close>-th draw of \<open>n\<close> bytes that the generator hands out from the state \<open>w\<close> on.\<close>

definition nth_draw :: "primitives \<Rightarrow> nat \<Rightarrow> world \<Rightarrow> nat \<Rightarrow> byte list" where
  "nth_draw P n w k = map (csprng P) [drawn w + k * n ..< drawn w + k * n + n]"

subsection \<open>Sizes\<close>

definition calculate_real_size :: "length_type \<Rightarrow> length_type \<Rightarrow> length_type \<Rightarrow> length_type" where
  "calculate_real_size underlying_size block_size iv_size =
     (let header_size = get_header_size;
          underlying_block_size = block_size + iv_size + get_mac_size
      in if underlying_size \<le> header_size then 0
         else
           let underlying_size' = underlying_size - header_size;
               num_blocks = underlying_size' div underlying_block_size;
               residue = underlying_size' mod underlying_block_size
           in num_blocks * block_size
                + (if residue > iv_size + get_mac_size
                     then residue - iv_size - get_mac_size else 0))"

definition size_stream :: "AESGCMCryptStream \<Rightarrow> length_type" where
  "size_stream s = calculate_real_size (stream_size (m_stream s)) (get_block_size s) (get_iv_size s)"

text \<open>The size formula in the words of the specification, over the integers.\<close>

definition spec_logical_size :: "int \<Rightarrow> int \<Rightarrow> int \<Rightarrow> int" where
  "spec_logical_size U_total block_size iv_size =
     (if U_total \<le> 32 then 0
      else
        let U = U_total - 32;
            underlying_block_size = block_size + iv_size + 16;
            n = U div underlying_block_size;
            r = U mod underlying_block_size
        in n * block_size + max 0 (r - iv_size - 16))"

subsection \<open>A concrete stream\<close>

definition example_stream :: AESGCMCryptStream where
  "example_stream = \<lparr>m_stream = replicate 132 0, m_block_size = 32, m_iv_size = 12,
     m_check = True, m_session_key = []\<rparr>"

text \<open>Stand-ins for the primitives, to run the model on concrete inputs: the toy
  cipher adds one to every byte, its tag is sixteen sevens; the generator's first twelve
  bytes are zero.\<close>

definition example_primitives :: primitives where
  "example_primitives =
     \<lparr>aes_ecb = (\<lambda>key data. map (\<lambda>b. b + 1) data),
      gcm_encrypt = (\<lambda>key iv aad msg. (map (\<lambda>b. b + 1) msg, replicate 16 7)),
      gcm_decrypt = (\<lambda>key iv aad ct tag. (map (\<lambda>b. b - 1) ct, tag = replicate 16 7)),
      csprng = (\<lambda>k. if k < 12 then 0 else 3)\<rparr>"

definition example_world :: world where
  "example_world = \<lparr>drawn = 0, trace = []\<rparr>"

definition example_unchecked :: AESGCMCryptStream where
  "example_unchecked = \<lparr>m_stream = replicate 32 1 @ replicate 32 5, m_block_size = 32,
     m_iv_size = 12, m_check = False, m_session_key = []\<rparr>"

section \<open>The FUSE callbacks (lite\_operations.cpp)\<close>

text \<open>
  A callback is a C function called by the FUSE host. It either returns an \<open>int\<close> or
  lets an exception escape. The embedding records which exit was taken:
  \<^item> \<open>Returned v\<close>: the \<open>return\<close> that ends the guarded body (the call succeeded);
  \<^item> \<open>Rejected v\<close>: an early \<open>return -E...\<close> of an explicit check;
  \<^item> \<open>Caught e v\<close>: the \<open>catch\<close> handler returned \<open>v\<close> for the exception \<open>e\<close>;
  \<^item> \<open>Uncaught e\<close>: \<open>e\<close> was thrown outside every \<open>try\<close> block and leaves the callback.

  The classes \<open>FileSystem\<close>, \<open>File\<close> and \<open>DirectoryTraverser\<close> are not among the sources:
  their methods are calls on a host (record \<open>host\<close>) that answers each call, given the
  calls made before it, with a result or an exception. The calls are logged in \<open>calls\<close>.
  \<open>listing\<close> gives the names that the calls of \<open>next\<close> on a traverser deliver one by
  one, and how the enumeration ends: with \<open>false\<close> or with an exception.
  \<open>answer_filler\<close> is the \<open>fuse_fill_dir_t\<close> function the FUSE host passes to
  \<open>readdir\<close>; \<open>is_win32\<close> says whether \<open>_WIN32\<close> is defined.
  The callback \<open>securefs::lite::f\<close> is the constant \<open>lite_f\<close>.
  Pointers are 64-bit words, 0 the null pointer; \<open>fuse_off_t\<close> is a signed 64-bit
  integer, read with \<open>sint\<close>. Of \<open>struct fuse_statvfs\<close> only the field \<open>f_namemax\<close>, an
  unsigned 64-bit integer, is kept; the contents of data buffers are not.
  \<open>init\<close> and \<open>destroy\<close> return no \<open>int\<close>, and the extended-attribute callbacks are
  compiled on Apple hosts only: they are not embedded.
\<close>

datatype exception =
    ExceptionBase int
  | StdException

datatype exit =
    Returned int
  | Rejected int
  | Caught exception int
  | Uncaught exception

text \<open>The constants of \<open>errno.h\<close> and \<open>fcntl.h\<close> the callbacks name.\<close>

definition EPERM :: int where "EPERM = 1"
definition EFAULT :: int where "EFAULT = 14"
definition EINVAL :: int where "EINVAL = 22"

datatype open_flag = O_RDWR | O_CREAT | O_EXCL | O_OTHER nat

datatype fs_call =
    FS_statvfs
  | FS_stat string
  | FS_create_traverser string
  | FS_open string "open_flag list" nat
  | FS_unlink string
  | FS_mkdir string nat
  | FS_rmdir string
  | FS_chmod string nat
  | FS_chown string nat nat
  | FS_symlink string string
  | FS_link string string
  | FS_readlink string "64 word"
  | FS_rename string string
  | FS_utimens string
  | Traverser_rewind "64 word"
  | Traverser_next "64 word"
  | Traverser_delete "64 word"
  | Filler string
  | File_lock "64 word" bool
  | File_unlock "64 word"
  | File_read "64 word" "64 word" "64 word"
  | File_write "64 word" "byte list" "64 word" "64 word"
  | File_flush "64 word"
  | File_resize "64 word" "64 word"
  | File_fsync "64 word"
  | File_delete "64 word"

record host =
  answer_void :: "fs_call list \<Rightarrow> fs_call \<Rightarrow> exception option"
  answer_bool :: "fs_call list \<Rightarrow> fs_call \<Rightarrow> exception + bool"
  answer_word :: "fs_call list \<Rightarrow> fs_call \<Rightarrow> exception + 64 word"
  listing :: "fs_call list \<Rightarrow> 64 word \<Rightarrow> string list \<times> exception option"
  answer_filler :: "fs_call list \<Rightarrow> fs_call \<Rightarrow> int"
  is_win32 :: bool
  throwInvalidArgumentException :: "string \<Rightarrow> exception"

text \<open>Modelled from the spec: the mount parameters \<open>MountOptions\<close> and the key length
  (their declarations are not among the sources): the master key is three 32-byte keys,
  the other parameters are plain values. The per-thread \<open>FileSystem\<close> is the record of what
  its constructor is given; \<open>HAS_THREAD_LOCAL\<close> is taken to be set.\<close>

record MountOptions =
  root :: string
  version :: int
  master_key :: "byte list"
  block_size :: "32 word"
  iv_size :: "32 word"
  flags :: "32 word"

record FileSystem =
  fs_root :: string
  name_key :: "byte list"
  content_key :: "byte list"
  xattr_key :: "byte list"
  fs_block_size :: "32 word"
  fs_iv_size :: "32 word"
  fs_flags :: "32 word"


text \<open>The state of a worker thread: its \<open>thread_local\<close> file system, and the log of
  calls on the host.\<close>

record thread_state =
  opt_fs :: "FileSystem option"
  calls :: "fs_call list"

definition KEY_LENGTH :: nat where
  "KEY_LENGTH = 32"

definition call_void :: "host \<Rightarrow> fs_call \<Rightarrow> thread_state \<Rightarrow> exception option \<times> thread_state" where
  "call_void h c \<sigma> = (answer_void h (calls \<sigma>) c, \<sigma>\<lparr>calls := calls \<sigma> @ [c]\<rparr>)"


definition call_word :: "host \<Rightarrow> fs_call \<Rightarrow> thread_state \<Rightarrow> (exception + 64 word) \<times> thread_state" where
  "call_word h c \<sigma> = (answer_word h (calls \<sigma>) c, \<sigma>\<lparr>calls := calls \<sigma> @ [c]\<rparr>)"

definition call_noexcept :: "fs_call \<Rightarrow> thread_state \<Rightarrow> thread_state" where
  "call_noexcept c \<sigma> = \<sigma>\<lparr>calls := calls \<sigma> @ [c]\<rparr>"

definition get_local_filesystem ::
  "host \<Rightarrow> MountOptions \<Rightarrow> thread_state \<Rightarrow> (exception + FileSystem) \<times> thread_state" where
  "get_local_filesystem h opt \<sigma> =
     (case opt_fs \<sigma> of
        Some fs \<Rightarrow> (Inr fs, \<sigma>)
      | None \<Rightarrow>
          if version opt \<noteq> 4
            then (Inl (throwInvalidArgumentException h
                         ''This function only supports filesystem format 4''), \<sigma>)
          else if length (master_key opt) \<noteq> 3 * KEY_LENGTH
            then (Inl (throwInvalidArgumentException h ''Master key has wrong length''), \<sigma>)
          else
            let fs = \<lparr>fs_root = root opt,
                      name_key = take KEY_LENGTH (master_key opt),
                      content_key = take KEY_LENGTH (drop KEY_LENGTH (master_key opt)),
                      xattr_key = take KEY_LENGTH (drop (2 * KEY_LENGTH) (master_key opt)),
                      fs_block_size = block_size opt, fs_iv_size = iv_size opt,
                      fs_flags = flags opt\<rparr>
            in (Inr fs, \<sigma>\<lparr>opt_fs := Some fs\<rparr>))"

text \<open>Modelled from the spec: the handlers \<open>OPT_CATCH_WITH_PATH\<close>,
  \<open>OPT_CATCH_WITH_PATH_OFF_LEN\<close> and \<open>OPT_CATCH_WITH_TWO_PATHS\<close> (macros that are not among
  the sources) surface an error as a negative errno, as the handler written out in
  \<open>ftruncate\<close> does: the exception's \<open>error_number()\<close> when it derives from
  \<open>ExceptionBase\<close>, \<open>EPERM\<close> otherwise.\<close>

definition error_code :: "exception \<Rightarrow> int" where
  "error_code e = (case e of ExceptionBase n \<Rightarrow> n | StdException \<Rightarrow> EPERM)"

definition catch :: "exception \<Rightarrow> exit" where
  "catch e = Caught e (- error_code e)"

text \<open>\<open>fp->lock(exclusive); DEFER(fp->unlock()); body\<close>: the unlock runs when the scope
  is left, by \<open>return\<close> or by an exception, once the lock has been taken.\<close>

definition locked ::
  "host \<Rightarrow> 64 word \<Rightarrow> bool \<Rightarrow> (thread_state \<Rightarrow> exit \<times> thread_state)
     \<Rightarrow> thread_state \<Rightarrow> exit \<times> thread_state" where
  "locked h fp exclusive body \<sigma> =
     (case call_void h (File_lock fp exclusive) \<sigma> of
        (Some e, \<sigma>1) \<Rightarrow> (catch e, \<sigma>1)
      | (None, \<sigma>1) \<Rightarrow>
          (case body \<sigma>1 of (x, \<sigma>2) \<Rightarrow> (x, call_noexcept (File_unlock fp) \<sigma>2)))"


subsection \<open>The callbacks\<close>

definition lite_statfs ::
  "host \<Rightarrow> MountOptions \<Rightarrow> string \<Rightarrow> 64 word option \<Rightarrow> thread_state
     \<Rightarrow> exit \<times> 64 word option \<times> thread_state" where
  "lite_statfs h opt path buf \<sigma> =
     (case get_local_filesystem h opt \<sigma> of
        (Inl e, \<sigma>1) \<Rightarrow> (Uncaught e, buf, \<sigma>1)
      | (Inr filesystem, \<sigma>1) \<Rightarrow>
          (case buf of
             None \<Rightarrow> (Rejected (- EFAULT), buf, \<sigma>1)
           | Some _ \<Rightarrow>
               (case call_word h FS_statvfs \<sigma>1 of
                  (Inl e, \<sigma>2) \<Rightarrow> (catch e, buf, \<sigma>2)
                | (Inr f_namemax, \<sigma>2) \<Rightarrow>
                    (Returned 0, Some (f_namemax * 5 div 8 - 16), \<sigma>2))))"


























definition lite_truncate ::
  "host \<Rightarrow> MountOptions \<Rightarrow> string \<Rightarrow> 64 word \<Rightarrow> thread_state \<Rightarrow> exit \<times> thread_state" where
  "lite_truncate h opt path len \<sigma> =
     (if sint len < 0 then (Rejected (- EINVAL), \<sigma>)
      else
        case get_local_filesystem h opt \<sigma> of
          (Inl e, \<sigma>1) \<Rightarrow> (Uncaught e, \<sigma>1)
        | (Inr filesystem, \<sigma>1) \<Rightarrow>
            (case call_word h (FS_open path [O_RDWR] 420) \<sigma>1 of
               (Inl e, \<sigma>2) \<Rightarrow> (catch e, \<sigma>2)
             | (Inr fp, \<sigma>2) \<Rightarrow>
                 (case locked h fp True
                         (\<lambda>\<sigma>3. case call_void h (File_resize fp len) \<sigma>3 of
                                 (Some e, \<sigma>4) \<Rightarrow> (catch e, \<sigma>4)
                               | (None, \<sigma>4) \<Rightarrow> (Returned 0, \<sigma>4)) \<sigma>2 of
                    (x, \<sigma>5) \<Rightarrow> (x, call_noexcept (File_delete fp) \<sigma>5))))"

subsection \<open>The operation table\<close>






subsection \<open>A concrete host\<close>

definition example_host :: host where
  "example_host =
     \<lparr>answer_void = (\<lambda>history c. None),
      answer_bool = (\<lambda>history c. Inr True),
      answer_word = (\<lambda>history c. case c of FS_statvfs \<Rightarrow> Inr 255 | _ \<Rightarrow> Inr 7),
      listing = (\<lambda>history t. ([''.'', ''a''], None)),
      answer_filler = (\<lambda>history c. 0),
      is_win32 = False,
      throwInvalidArgumentException = (\<lambda>msg. ExceptionBase EINVAL)\<rparr>"

definition short_names_host :: host where
  "short_names_host = example_host\<lparr>answer_word := (\<lambda>history c. Inr 10)\<rparr>"

definition example_options :: MountOptions where
  "example_options =
     \<lparr>root = ''/data'', version = 4, master_key = replicate 96 1, block_size = 4096,
      iv_size = 12, flags = 0\<rparr>"

definition example_thread :: thread_state where
  "example_thread = \<lparr>opt_fs = None, calls = []\<rparr>"


section \<open>Properties of the crypt stream\<close>

subsection \<open>Machine arithmetic\<close>

lemma unat_ucast_u32_u64: "unat (ucast (x :: 32 word) :: 64 word) = unat x"
proof -
  have "unat x < 2 ^ 32" using unsigned_less [of x] by simp
  then have "unat x < 2 ^ 64" by simp
  then show ?thesis by (simp add: unsigned_ucast_eq take_bit_nat_eq_self)
qed

lemma get_iv_size_bounds:
  assumes "constructed s"
  shows "12 \<le> unat (get_iv_size s)" "unat (get_iv_size s) \<le> 32"
  using assms
  by (simp_all add: constructed_def get_iv_size_def word_le_nat_alt unat_ucast_u32_u64)

lemma get_block_size_bounds:
  assumes "constructed s"
  shows "32 \<le> unat (get_block_size s)" "unat (get_block_size s) < 2 ^ 32"
  using assms
  by (simp_all add: constructed_def get_block_size_def word_le_nat_alt word_less_nat_alt)

lemma unat_MAX_BLOCKS: "unat MAX_BLOCKS = 2147483647"
  by (simp add: MAX_BLOCKS_def)

lemma underlying_block_size_nat:
  assumes "constructed s"
  shows "unat (get_underlying_block_size s) = unat (get_block_size s) + unat (get_iv_size s) + 16"
  using get_block_size_bounds [OF assms] get_iv_size_bounds [OF assms]
  by (simp add: get_underlying_block_size_def get_mac_size_def unat_word_ariths)

lemma mac_plus_iv_nat:
  assumes "constructed s"
  shows "unat (get_mac_size + get_iv_size s) = unat (get_iv_size s) + 16"
  using get_iv_size_bounds [OF assms]
  by (simp add: get_mac_size_def unat_word_ariths)

lemma block_offset_bound:
  assumes "constructed s" "i \<le> MAX_BLOCKS"
  shows "unat i * (unat (get_block_size s) + unat (get_iv_size s) + 16) + 32 < 2 ^ 64"
proof -
  have i: "unat i \<le> 2147483647"
    using assms(2) by (simp add: word_le_nat_alt unat_MAX_BLOCKS)
  have k: "unat (get_block_size s) + unat (get_iv_size s) + 16 \<le> 4294967343"
    using get_block_size_bounds [OF assms(1)] get_iv_size_bounds [OF assms(1)] by simp
  have "unat i * (unat (get_block_size s) + unat (get_iv_size s) + 16)
          \<le> 2147483647 * 4294967343"
    using i k by (rule mult_le_mono)
  then show ?thesis by simp
qed

lemma write_offset_nat:
  assumes "constructed s" "i \<le> MAX_BLOCKS"
  shows "unat (i * get_underlying_block_size s + get_header_size)
         = 32 + unat i * (unat (get_block_size s) + unat (get_iv_size s) + 16)"
proof -
  let ?k = "unat (get_block_size s) + unat (get_iv_size s) + 16"
  have b: "unat i * ?k + 32 < 2 ^ 64" by (rule block_offset_bound [OF assms])
  then have "unat i * unat (get_underlying_block_size s) < 2 ^ 64"
    by (simp add: underlying_block_size_nat [OF assms(1)])
  then have m: "unat (i * get_underlying_block_size s) = unat i * ?k"
    by (simp add: unat_mult_lem [THEN iffD1] underlying_block_size_nat [OF assms(1)])
  have "unat (i * get_underlying_block_size s) + unat get_header_size < 2 ^ 64"
    using b by (simp add: m get_header_size_def)
  then have "unat (i * get_underlying_block_size s + get_header_size)
        = unat (i * get_underlying_block_size s) + unat get_header_size"
    by (simp add: unat_add_lem [THEN iffD1])
  then show ?thesis by (simp add: m get_header_size_def)
qed

lemma read_offset_eq:
  "get_header_size + get_underlying_block_size s * i
     = i * get_underlying_block_size s + get_header_size"
  by (simp add: ac_simps)

lemma underlying_size_nat:
  assumes "constructed s" "n \<le> unat (get_block_size s)"
  shows "unat ((of_nat n :: length_type) + get_iv_size s + get_mac_size)
         = n + unat (get_iv_size s) + 16"
proof -
  have n: "n < 2 ^ 32" using assms(2) get_block_size_bounds [OF assms(1)] by simp
  then have "unat (of_nat n :: length_type) = n"
    by (simp add: unat_of_nat)
  then show ?thesis
    using n get_iv_size_bounds [OF assms(1)]
    by (simp add: get_mac_size_def unat_word_ariths)
qed

lemma calculate_real_size_nat:
  fixes u b i :: length_type
  assumes b: "unat b < 2 ^ 32" and i: "unat i \<le> 32"
  shows "unat (calculate_real_size u b i) =
     (if unat u \<le> 32 then 0
      else (unat u - 32) div (unat b + unat i + 16) * unat b
           + (if (unat u - 32) mod (unat b + unat i + 16) > unat i + 16
              then (unat u - 32) mod (unat b + unat i + 16) - unat i - 16 else 0))"
proof (cases "unat u \<le> 32")
  case True
  then have "u \<le> 32" by (simp add: word_le_nat_alt)
  then show ?thesis using True by (simp add: calculate_real_size_def get_header_size_def)
next
  case False
  then have nle: "\<not> u \<le> 32" by (simp add: word_le_nat_alt)
  define U where "U = unat u - 32"
  define k where "k = unat b + unat i + 16"
  have k_unat: "unat (b + i + 16) = k"
    using b i unfolding k_def by (simp add: unat_word_ariths)
  have i16: "unat (i + 16) = unat i + 16"
    using i by (simp add: unat_word_ariths)
  have U_unat: "unat (u - 32) = U"
    using False unfolding U_def by (simp add: unat_sub word_le_nat_alt)
  have kpos: "0 < k" unfolding k_def by simp
  have Ult: "U < 2 ^ 64" using unsigned_less [of "u - 32", where 'a = nat] U_unat by simp
  have dv: "unat ((u - 32) div (b + i + 16)) = U div k"
    by (simp add: unat_div k_unat U_unat)
  have md: "unat ((u - 32) mod (b + i + 16)) = U mod k"
    by (simp add: unat_mod k_unat U_unat)
  have le1: "U div k * unat b \<le> U div k * k" unfolding k_def by simp
  have le2: "U div k * k \<le> U" by simp
  have "unat ((u - 32) div (b + i + 16)) * unat b < 2 ^ 64"
    using le1 le2 Ult unfolding dv by linarith
  then have "unat ((u - 32) div (b + i + 16) * b) = unat ((u - 32) div (b + i + 16)) * unat b"
    by (simp add: unat_mult_lem [THEN iffD1])
  then have mul: "unat ((u - 32) div (b + i + 16) * b) = U div k * unat b"
    by (simp only: dv)
  show ?thesis
  proof (cases "U mod k > unat i + 16")
    case True
    then have gt: "(u - 32) mod (b + i + 16) > i + 16"
      by (simp add: word_less_nat_alt md i16)
    have sub1: "unat ((u - 32) mod (b + i + 16) - i) = U mod k - unat i"
      using True by (simp add: unat_sub word_le_nat_alt md)
    have sub2: "unat ((u - 32) mod (b + i + 16) - i - 16) = U mod k - unat i - 16"
      using True sub1 by (simp add: unat_sub word_le_nat_alt)
    have "U div k * unat b + (U mod k - unat i - 16) \<le> U div k * k + U mod k"
      using le1 by linarith
    also have "\<dots> = U" by simp
    finally have bound: "U div k * unat b + (U mod k - unat i - 16) < 2 ^ 64" using Ult by simp
    have "unat ((u - 32) div (b + i + 16) * b + ((u - 32) mod (b + i + 16) - i - 16))
          = U div k * unat b + (U mod k - unat i - 16)"
      using bound by (simp add: unat_add_lem [THEN iffD1] mul sub2)
    then show ?thesis
      using False nle gt True
      by (simp add: calculate_real_size_def get_header_size_def get_mac_size_def Let_def U_def [symmetric] k_def [symmetric])
  next
    case F2: False
    then have ngt: "\<not> (u - 32) mod (b + i + 16) > i + 16"
      by (simp add: word_less_nat_alt md i16)
    show ?thesis
      using False nle ngt F2 mul
      by (simp add: calculate_real_size_def get_header_size_def get_mac_size_def Let_def U_def [symmetric] k_def [symmetric])
  qed
qed

lemma spec_logical_size_nat:
  "spec_logical_size (int u) (int b) (int i) =
     int (if u \<le> 32 then 0
      else (u - 32) div (b + i + 16) * b
           + (if (u - 32) mod (b + i + 16) > i + 16
              then (u - 32) mod (b + i + 16) - i - 16 else 0))"
proof (cases "u \<le> 32")
  case True
  then show ?thesis by (simp add: spec_logical_size_def)
next
  case False
  define U where "U = u - 32"
  define k where "k = b + i + 16"
  have U: "int u - 32 = int U" using False by (simp add: U_def)
  have k: "int b + int i + 16 = int k" by (simp add: k_def)
  have dv: "int U div int k = int (U div k)" by (simp add: zdiv_int)
  have md: "int U mod int k = int (U mod k)" by (simp add: zmod_int)
  have mx: "max 0 (int (U mod k) - int i - 16) =
            int (if U mod k > i + 16 then U mod k - i - 16 else 0)"
    by (simp add: max_def)
  have "spec_logical_size (int u) (int b) (int i) =
        int (U div k) * int b + max 0 (int (U mod k) - int i - 16)"
    using False by (simp add: spec_logical_size_def Let_def U k dv md)
  also have "\<dots> = int (U div k * b + (if U mod k > i + 16 then U mod k - i - 16 else 0))"
    unfolding mx by simp
  finally show ?thesis using False by (simp add: U_def k_def)
qed

subsection \<open>The constructor's checks hold of every stream\<close>

lemma new_constructed:
  fixes master_key :: "byte list" and block_size iv_size :: "32 word"
  assumes "AESGCMCryptStream_new P stream master_key block_size iv_size check w = (Inr s, w')"
  shows "constructed s"
proof -
  have b: "(ucast block_size :: 64 word) < 2 ^ 32"
    using unsigned_less [of block_size, where 'a = nat]
    by (simp add: word_less_nat_alt unat_ucast_u32_u64)
  have c: "\<not> block_size < 32 \<Longrightarrow> (32 :: 64 word) \<le> ucast block_size"
    by (simp add: word_le_nat_alt word_less_nat_alt unat_ucast_u32_u64)
  have d: "\<not> (iv_size < 12 \<or> iv_size > 32) \<Longrightarrow> 12 \<le> iv_size \<and> iv_size \<le> 32"
    by (simp add: not_less)
  show ?thesis
  proof (cases "iv_size < 12 \<or> iv_size > 32")
    case True
    then show ?thesis using assms by (simp add: AESGCMCryptStream_new_def)
  next
    case iv: False
    show ?thesis
    proof (cases stream)
      case None
      then show ?thesis using assms iv by (simp add: AESGCMCryptStream_new_def)
    next
      case (Some dd)
      show ?thesis
      proof (cases "block_size < 32")
        case True
        then show ?thesis using assms iv Some by (simp add: AESGCMCryptStream_new_def)
      next
        case bs: False
        have "m_iv_size s = iv_size \<and> m_block_size s = ucast block_size"
          using assms iv Some bs
          by (auto simp: AESGCMCryptStream_new_def Let_def split: if_splits prod.splits)
        then show ?thesis
          using b c [OF bs] d [OF iv] by (simp add: constructed_def)
      qed
    qed
  qed
qed

lemma write_block_constructed:
  assumes "write_block P s i input w = Some (r, s', w')" "constructed s"
  shows "constructed s'"
proof -
  have "m_iv_size s' = m_iv_size s \<and> m_block_size s' = m_block_size s"
    using assms(1)
    by (auto simp: write_block_def Let_def split: if_splits option.splits prod.splits)
  then show ?thesis using assms(2) by (simp add: constructed_def)
qed

subsection \<open>Reading a block\<close>

text \<open>A read of the inner stream returns at most the bytes asked for, so the check of
  \<open>rc\<close> against the underlying block size never throws, and no subtraction on \<open>rc\<close> wraps
  once \<open>rc\<close> exceeds \<open>iv_size + 16\<close>.\<close>

lemma read_length:
  fixes off :: offset_type
  assumes "constructed s"
  defines "buffer \<equiv> stream_read (m_stream s) off (get_underlying_block_size s)"
  shows "length buffer \<le> unat (get_block_size s) + unat (get_iv_size s) + 16"
    and "unat (of_nat (length buffer) :: length_type) = length buffer"
proof -
  show le: "length buffer \<le> unat (get_block_size s) + unat (get_iv_size s) + 16"
    by (simp add: buffer_def stream_read_def underlying_block_size_nat [OF assms(1)])
  have "length buffer < 2 ^ 64"
    using le get_block_size_bounds [OF assms(1)] get_iv_size_bounds [OF assms(1)] by simp
  then show "unat (of_nat (length buffer) :: length_type) = length buffer"
    by (simp add: unat_of_nat)
qed

lemma read_block_unfold:
  assumes c: "constructed s" and i: "i \<le> MAX_BLOCKS"
  defines "off \<equiv> get_header_size + get_underlying_block_size s * i"
  defines "buffer \<equiv> stream_read (m_stream s) off (get_underlying_block_size s)"
  defines "rc \<equiv> (of_nat (length buffer) :: length_type)"
  shows "read_block P s i out w =
    (let w1 = emit (StreamRead off (get_underlying_block_size s)) w
     in if length buffer \<le> unat (get_iv_size s) + 16 then (Inr 0, out, w1)
        else
          let out_size = rc - get_iv_size s - get_mac_size
          in if is_all_zeros buffer
               then (Inr out_size, memset0 out (unat (get_block_size s)), w1)
             else
               let auxiliary = to_little_endian (ucast i);
                   iv = take (unat (get_iv_size s)) buffer;
                   tag = take (unat get_mac_size) (drop (unat (rc - get_mac_size)) buffer);
                   ct = take (unat out_size) (drop (unat (get_iv_size s)) buffer);
                   (plain, success) = gcm_decrypt P (m_session_key s) iv auxiliary ct tag;
                   w2 = emit (DecryptAndVerify iv auxiliary ct tag) w1;
                   output' = overwrite out plain
               in if m_check s \<and> \<not> success
                    then (Inl MessageVerification, output', w2)
                  else (Inr out_size, output', w2))"
proof -
  have gt: "\<not> i > MAX_BLOCKS" using i by (simp add: not_less)
  have len: "length buffer \<le> unat (get_block_size s) + unat (get_iv_size s) + 16"
    and ur: "unat rc = length buffer"
    using read_length [OF c, of off] by (simp_all add: rc_def buffer_def)
  have le_iff: "rc \<le> get_mac_size + get_iv_size s \<longleftrightarrow> length buffer \<le> unat (get_iv_size s) + 16"
    by (simp add: word_le_nat_alt ur mac_plus_iv_nat [OF c])
  have not_gt: "\<not> rc > get_underlying_block_size s"
    using len by (simp add: word_less_nat_alt ur underlying_block_size_nat [OF c])
  have "read_block P s i out w =
    (let w1 = emit (StreamRead off (get_underlying_block_size s)) w
     in if rc \<le> get_mac_size + get_iv_size s then (Inr 0, out, w1)
        else if rc > get_underlying_block_size s
          then (Inl (InvalidArgument ''Invalid read''), out, w1)
        else
          let out_size = rc - get_iv_size s - get_mac_size
          in if is_all_zeros buffer
               then (Inr out_size, memset0 out (unat (get_block_size s)), w1)
             else
               let auxiliary = to_little_endian (ucast i);
                   iv = take (unat (get_iv_size s)) buffer;
                   tag = take (unat get_mac_size) (drop (unat (rc - get_mac_size)) buffer);
                   ct = take (unat out_size) (drop (unat (get_iv_size s)) buffer);
                   (plain, success) = gcm_decrypt P (m_session_key s) iv auxiliary ct tag;
                   w2 = emit (DecryptAndVerify iv auxiliary ct tag) w1;
                   output' = overwrite out plain
               in if m_check s \<and> \<not> success
                    then (Inl MessageVerification, output', w2)
                  else (Inr out_size, output', w2))"
    unfolding read_block_def off_def buffer_def rc_def Let_def
    by (simp only: gt if_False)
  then show ?thesis
    by (simp only: le_iff not_gt if_False Let_def)
qed

lemma read_sizes:
  fixes off :: offset_type
  assumes c: "constructed s"
  defines "buffer \<equiv> stream_read (m_stream s) off (get_underlying_block_size s)"
  defines "rc \<equiv> (of_nat (length buffer) :: length_type)"
  assumes big: "length buffer > unat (get_iv_size s) + 16"
  shows "unat (rc - get_iv_size s - get_mac_size) = length buffer - unat (get_iv_size s) - 16"
    and "unat (rc - get_mac_size) = length buffer - 16"
proof -
  have ur: "unat rc = length buffer"
    using read_length [OF c, of off] by (simp_all add: rc_def buffer_def)
  have ivle: "get_iv_size s \<le> rc"
    using big by (simp add: word_le_nat_alt ur)
  have s1: "unat (rc - get_iv_size s) = length buffer - unat (get_iv_size s)"
    using ivle by (simp add: unat_sub ur)
  have "get_mac_size \<le> rc - get_iv_size s"
    using big by (simp add: word_le_nat_alt s1 get_mac_size_def)
  then show "unat (rc - get_iv_size s - get_mac_size) = length buffer - unat (get_iv_size s) - 16"
    by (simp only: unat_sub s1) (simp add: get_mac_size_def)
  have "get_mac_size \<le> rc"
    using big by (simp add: word_le_nat_alt ur get_mac_size_def)
  then show "unat (rc - get_mac_size) = length buffer - 16"
    by (simp only: unat_sub ur) (simp add: get_mac_size_def)
qed

subsection \<open>The redraw loop\<close>

lemma generate_random_length: "length (fst (generate_random P n w)) = n"
  by (simp add: generate_random_def)

lemma generate_random_drawn: "drawn (snd (generate_random P n w)) = drawn w + n"
  by (simp add: generate_random_def emit_def)

lemma draw_iv_Some:
  assumes "draw_iv P n w = Some r"
  shows "\<not> is_all_zeros (fst r) \<and> length (fst r) = n"
proof -
  have "\<not> is_all_zeros (fst r) \<and> length (fst r) = snd (fst ((P, n), w))"
  proof (rule draw_iv.raw_induct
      [where Pa = "\<lambda>x y. \<not> is_all_zeros (fst y) \<and> length (fst y) = snd (fst x)"
         and P = P and n = n and w = w and y = r])
    show "draw_iv P n w = Some r" by (fact assms)
  next
    fix f :: "primitives \<Rightarrow> nat \<Rightarrow> world \<Rightarrow> (byte list \<times> world) option"
      and P' n' w' r'
    assume IH: "\<And>p m v y. f p m v = Some y \<Longrightarrow>
                  \<not> is_all_zeros (fst y) \<and> length (fst y) = snd (fst ((p, m), v))"
      and eq: "(if is_all_zeros (fst (generate_random P' n' w'))
                then f P' n' (snd (generate_random P' n' w'))
                else Some (generate_random P' n' w')) = Some r'"
    show "\<not> is_all_zeros (fst r') \<and> length (fst r') = snd (fst ((P', n'), w'))"
    proof (cases "is_all_zeros (fst (generate_random P' n' w'))")
      case True
      with eq have "f P' n' (snd (generate_random P' n' w')) = Some r'" by simp
      from IH [OF this] show ?thesis by simp
    next
      case False
      with eq have "r' = generate_random P' n' w'" by simp
      with False show ?thesis by (simp add: generate_random_length)
    qed
  qed
  then show ?thesis by simp
qed

lemma draw_iv_returns:
  assumes "\<not> is_all_zeros (map (csprng P) [drawn w + k * n ..< drawn w + k * n + n])"
  shows "\<exists>r. draw_iv P n w = Some r"
  using assms
proof (induction k arbitrary: w)
  case 0
  then have "\<not> is_all_zeros (fst (generate_random P n w))"
    by (simp add: generate_random_def)
  then show ?case by (subst draw_iv.simps) simp
next
  case (Suc k)
  show ?case
  proof (cases "is_all_zeros (fst (generate_random P n w))")
    case True
    have "\<not> is_all_zeros (map (csprng P)
            [drawn (snd (generate_random P n w)) + k * n
               ..< drawn (snd (generate_random P n w)) + k * n + n])"
      using Suc.prems by (simp add: generate_random_drawn ac_simps)
    then have "\<exists>r. draw_iv P n (snd (generate_random P n w)) = Some r"
      by (rule Suc.IH)
    then show ?thesis using True by (subst draw_iv.simps) simp
  next
    case False
    then show ?thesis by (subst draw_iv.simps) simp
  qed
qed

lemma nth_draw_0: "nth_draw P n w 0 = fst (generate_random P n w)"
  by (simp add: nth_draw_def generate_random_def)

lemma nth_draw_Suc: "nth_draw P n w (Suc k) = nth_draw P n (snd (generate_random P n w)) k"
  by (simp add: nth_draw_def generate_random_drawn ac_simps)

lemma draw_iv_first:
  assumes "draw_iv P n w = Some r"
  shows "\<exists>k. fst r = nth_draw P n w k \<and> (\<forall>j<k. is_all_zeros (nth_draw P n w j))"
proof -
  have "\<exists>k. fst r = nth_draw (fst (fst ((P, n), w))) (snd (fst ((P, n), w))) (snd ((P, n), w)) k
          \<and> (\<forall>j<k. is_all_zeros
                 (nth_draw (fst (fst ((P, n), w))) (snd (fst ((P, n), w))) (snd ((P, n), w)) j))"
  proof (rule draw_iv.raw_induct
      [where Pa = "\<lambda>x y. \<exists>k. fst y = nth_draw (fst (fst x)) (snd (fst x)) (snd x) k
          \<and> (\<forall>j<k. is_all_zeros (nth_draw (fst (fst x)) (snd (fst x)) (snd x) j))"
         and P = P and n = n and w = w and y = r])
    show "draw_iv P n w = Some r" by (fact assms)
  next
    fix f :: "primitives \<Rightarrow> nat \<Rightarrow> world \<Rightarrow> (byte list \<times> world) option"
      and P' n' w' r'
    assume IH: "\<And>p m v y. f p m v = Some y \<Longrightarrow>
                  \<exists>k. fst y = nth_draw (fst (fst ((p, m), v))) (snd (fst ((p, m), v)))
                                 (snd ((p, m), v)) k
                    \<and> (\<forall>j<k. is_all_zeros (nth_draw (fst (fst ((p, m), v)))
                                 (snd (fst ((p, m), v))) (snd ((p, m), v)) j))"
      and eq: "(if is_all_zeros (fst (generate_random P' n' w'))
                then f P' n' (snd (generate_random P' n' w'))
                else Some (generate_random P' n' w')) = Some r'"
    show "\<exists>k. fst r' = nth_draw (fst (fst ((P', n'), w'))) (snd (fst ((P', n'), w')))
                          (snd ((P', n'), w')) k
          \<and> (\<forall>j<k. is_all_zeros (nth_draw (fst (fst ((P', n'), w')))
                          (snd (fst ((P', n'), w'))) (snd ((P', n'), w')) j))"
    proof (cases "is_all_zeros (fst (generate_random P' n' w'))")
      case True
      with eq have "f P' n' (snd (generate_random P' n' w')) = Some r'" by simp
      from IH [OF this] obtain k where
        k: "fst r' = nth_draw P' n' (snd (generate_random P' n' w')) k"
           "\<forall>j<k. is_all_zeros (nth_draw P' n' (snd (generate_random P' n' w')) j)"
        by auto
      have "\<forall>j<Suc k. is_all_zeros (nth_draw P' n' w' j)"
      proof (intro allI impI)
        fix j assume "j < Suc k"
        then show "is_all_zeros (nth_draw P' n' w' j)"
          using True k(2) by (cases j) (simp_all add: nth_draw_0 nth_draw_Suc)
      qed
      moreover have "fst r' = nth_draw P' n' w' (Suc k)"
        using k(1) by (simp add: nth_draw_Suc)
      ultimately show ?thesis by auto
    next
      case False
      with eq have "r' = generate_random P' n' w'" by simp
      then have "fst r' = nth_draw P' n' w' 0" by (simp add: nth_draw_0)
      then show ?thesis by auto
    qed
  qed
  then show ?thesis by simp
qed

subsection \<open>Facts about the concrete streams\<close>

text \<open>The case of the repository's own test of \<open>to_little_endian\<close>.\<close>

lemma to_little_endian_test: "to_little_endian 0xABCDEF = [0xEF, 0xCD, 0xAB, 0]"
  by (simp add: to_little_endian_def)

lemma is_all_zeros_replicate: "is_all_zeros (replicate n 0)"
  by (simp add: is_all_zeros_def list_all_iff)

lemma constructed_example_stream: "constructed example_stream"
  by (simp add: constructed_def example_stream_def)

lemma constructed_example_unchecked: "constructed example_unchecked"
  by (simp add: constructed_def example_unchecked_def)

lemma MAX_BLOCKS_value: "MAX_BLOCKS = 2147483647"
  by (simp add: MAX_BLOCKS_def)

lemma map_upt_const:
  assumes "\<And>k. a \<le> k \<Longrightarrow> k < a + n \<Longrightarrow> f k = c"
  shows "map f [a..<a + n] = replicate n c"
  by (rule nth_equalityI) (simp_all add: assms)

lemma example_first_draw: "map (csprng example_primitives) [0..<12] = replicate 12 0"
  using map_upt_const [of 0 12 "csprng example_primitives" 0]
  by (simp add: example_primitives_def)

lemma example_second_draw: "map (csprng example_primitives) [12..<24] = replicate 12 3"
  using map_upt_const [of 12 12 "csprng example_primitives" 3]
  by (simp add: example_primitives_def)

lemma example_draw_iv:
  "draw_iv example_primitives 12 example_world
     = Some (replicate 12 3, \<lparr>drawn = 24, trace = [GenerateRandom 12, GenerateRandom 12]\<rparr>)"
proof -
  have g1: "generate_random example_primitives 12 example_world
              = (replicate 12 0, \<lparr>drawn = 12, trace = [GenerateRandom 12]\<rparr>)"
    unfolding generate_random_def example_world_def emit_def
    by (simp del: upt_rec_numeral add: example_first_draw)
  have g2: "generate_random example_primitives 12 \<lparr>drawn = 12, trace = [GenerateRandom 12]\<rparr>
              = (replicate 12 3, \<lparr>drawn = 24, trace = [GenerateRandom 12, GenerateRandom 12]\<rparr>)"
    unfolding generate_random_def emit_def
    by (simp del: upt_rec_numeral add: example_second_draw)
  have nz: "\<not> is_all_zeros (replicate 12 3)"
    by (simp add: is_all_zeros_def list_all_iff)
  have "draw_iv example_primitives 12 \<lparr>drawn = 12, trace = [GenerateRandom 12]\<rparr>
          = Some (replicate 12 3, \<lparr>drawn = 24, trace = [GenerateRandom 12, GenerateRandom 12]\<rparr>)"
    by (subst draw_iv.simps) (simp add: g2 nz)
  then show ?thesis
    by (subst draw_iv.simps) (simp add: g1 is_all_zeros_replicate)
qed

subsection \<open>C1: the logical size\<close>

text \<open>
  C1. For every size of the underlying stream, \<open>size()\<close> of a constructed stream
  returns the value of the specification's formula, computed over the integers: 0 when
  the underlying size is at most the 32-byte header, otherwise
  \<open>n * block_size + max 0 (r - iv_size - 16)\<close> for the quotient \<open>n\<close> and the
  remainder \<open>r\<close> of the size past the header by the underlying block size. No
  64-bit operation of \<open>calculate_real_size\<close> wraps.
\<close>

theorem size_formula:
  assumes "constructed s"
  shows "uint (size_stream s) =
         spec_logical_size (uint (stream_size (m_stream s)))
           (uint (get_block_size s)) (uint (get_iv_size s))"
proof -
  define u where "u = stream_size (m_stream s)"
  define b where "b = get_block_size s"
  define i where "i = get_iv_size s"
  have b: "unat b < 2 ^ 32" and i: "unat i \<le> 32"
    using get_block_size_bounds [OF assms] get_iv_size_bounds [OF assms]
    by (simp_all add: b_def i_def)
  have "uint (calculate_real_size u b i) = int (unat (calculate_real_size u b i))"
    by simp
  also have "\<dots> = spec_logical_size (int (unat u)) (int (unat b)) (int (unat i))"
    unfolding calculate_real_size_nat [OF b i] spec_logical_size_nat ..
  finally show ?thesis
    by (simp add: size_stream_def u_def b_def i_def)
qed

theorem size_formula_witness:
  "constructed example_stream \<and> uint (size_stream example_stream) = 44"
proof -
  have c: "constructed example_stream"
    by (simp add: constructed_def example_stream_def)
  have "spec_logical_size (uint (stream_size (m_stream example_stream)))
           (uint (get_block_size example_stream)) (uint (get_iv_size example_stream)) = 44"
    by (simp add: spec_logical_size_def example_stream_def stream_size_def get_block_size_def get_iv_size_def)
  with size_formula [OF c] c show ?thesis by simp
qed

subsection \<open>C2: writing an all-zero block\<close>

text \<open>
  C2. For a block number \<open>i \<le> 2^31 - 1\<close> and an all-zero plaintext of \<open>n\<close> bytes
  (\<open>n\<close> at most the block size, which is what the block buffer holds),
  \<open>write_block\<close> makes exactly one call that leaves the object: a write of
  \<open>n + iv_size + 16\<close> zero bytes to the inner stream at offset
  \<open>32 + i * underlying_block_size\<close> (no wrap-around). No random bytes are drawn and
  nothing is encrypted: the trace gains that write only and \<open>drawn\<close> is unchanged.
\<close>

theorem write_block_zero:
  fixes s :: AESGCMCryptStream
  assumes "constructed s" and "i \<le> MAX_BLOCKS"
    and "is_all_zeros input" and "length input \<le> unat (get_block_size s)"
  defines "off \<equiv> i * get_underlying_block_size s + get_header_size"
    and "zeros \<equiv> replicate (length input + unat (get_iv_size s) + 16) (0 :: byte)"
  shows "write_block P s i input w
             = Some (Inr (), s\<lparr>m_stream := stream_write (m_stream s) off zeros\<rparr>,
                     w\<lparr>trace := trace w @ [StreamWrite off zeros]\<rparr>)
         \<and> unat off = 32 + unat i * (unat (get_block_size s) + unat (get_iv_size s) + 16)"
proof -
  have gt: "\<not> i > MAX_BLOCKS" using assms(2) by (simp add: not_less)
  show ?thesis
    using gt assms(3) write_offset_nat [OF assms(1,2)] underlying_size_nat [OF assms(1,4)]
    by (simp add: write_block_def Let_def emit_def off_def zeros_def)
qed

theorem write_block_zero_witness:
  "constructed example_stream \<and> 1 \<le> MAX_BLOCKS \<and> is_all_zeros [0, 0, 0, 0]
   \<and> length [0, 0, 0, 0 :: byte] \<le> unat (get_block_size example_stream)
   \<and> write_block example_primitives example_stream 1 [0, 0, 0, 0] example_world
       = Some (Inr (),
               example_stream\<lparr>m_stream := stream_write (m_stream example_stream) 92 (replicate 32 0)\<rparr>,
               example_world\<lparr>trace := [StreamWrite 92 (replicate 32 0)]\<rparr>)"
proof -
  have h2: "(1 :: offset_type) \<le> MAX_BLOCKS" by (simp add: MAX_BLOCKS_value)
  have h3: "is_all_zeros [0, 0, 0, 0]" by (simp add: is_all_zeros_def)
  have h4: "length [0, 0, 0, 0 :: byte] \<le> unat (get_block_size example_stream)"
    by (simp add: get_block_size_def example_stream_def)
  have v: "get_underlying_block_size example_stream = 60" "get_iv_size example_stream = 12"
    by (simp_all add: get_underlying_block_size_def get_block_size_def get_iv_size_def
        get_mac_size_def example_stream_def)
  show ?thesis
    using write_block_zero [OF constructed_example_stream h2 h3 h4,
        where P = example_primitives and w = example_world]
      constructed_example_stream h2 h3 h4
    by (simp add: v get_header_size_def example_world_def)
qed

subsection \<open>C3: reading a sparse block, and reading past the end\<close>

text \<open>
  C3. For a block number \<open>i \<le> 2^31 - 1\<close>, let \<open>r\<close> be the number of bytes the inner
  stream returns for block \<open>i\<close>. If \<open>r > iv_size + 16\<close> and the bytes are all zero,
  \<open>read_block\<close> sets the first \<open>block_size\<close> bytes of the output to zero and returns
  \<open>r - iv_size - 16\<close>; the only call it makes is the read, so nothing is decrypted.
  If \<open>r \<le> iv_size + 16\<close> it returns 0 and leaves the output as it was. The read is
  at offset \<open>32 + i * underlying_block_size\<close>, which does not wrap.
\<close>

theorem read_block_sparse:
  fixes s :: AESGCMCryptStream and w :: world
  assumes c: "constructed s" and i: "i \<le> MAX_BLOCKS"
  defines "off \<equiv> get_header_size + get_underlying_block_size s * i"
  defines "buffer \<equiv> stream_read (m_stream s) off (get_underlying_block_size s)"
  defines "w1 \<equiv> w\<lparr>trace := trace w @ [StreamRead off (get_underlying_block_size s)]\<rparr>"
  shows "(length buffer > unat (get_iv_size s) + 16 \<and> is_all_zeros buffer \<longrightarrow>
            (\<exists>n. read_block P s i out w
                   = (Inr n, replicate (unat (get_block_size s)) 0
                               @ drop (unat (get_block_size s)) out, w1)
                 \<and> unat n = length buffer - unat (get_iv_size s) - 16))
       \<and> (length buffer \<le> unat (get_iv_size s) + 16 \<longrightarrow>
            read_block P s i out w = (Inr 0, out, w1))
       \<and> unat off = 32 + unat i * (unat (get_block_size s) + unat (get_iv_size s) + 16)"
proof (intro conjI impI)
  assume a: "length buffer > unat (get_iv_size s) + 16 \<and> is_all_zeros buffer"
  then have nle: "\<not> length buffer \<le> unat (get_iv_size s) + 16" by simp
  let ?n = "(of_nat (length buffer) :: length_type) - get_iv_size s - get_mac_size"
  have "read_block P s i out w
          = (Inr ?n, memset0 out (unat (get_block_size s)),
             emit (StreamRead off (get_underlying_block_size s)) w)"
    unfolding read_block_unfold [OF c i] Let_def
    using a nle by (simp add: off_def buffer_def)
  moreover have "unat ?n = length buffer - unat (get_iv_size s) - 16"
    using read_sizes(1) [OF c, of off] a by (simp add: buffer_def)
  ultimately show "\<exists>n. read_block P s i out w
                   = (Inr n, replicate (unat (get_block_size s)) 0
                               @ drop (unat (get_block_size s)) out, w1)
                 \<and> unat n = length buffer - unat (get_iv_size s) - 16"
    by (simp add: memset0_def emit_def w1_def)
next
  assume "length buffer \<le> unat (get_iv_size s) + 16"
  then show "read_block P s i out w = (Inr 0, out, w1)"
    unfolding read_block_unfold [OF c i] Let_def
    by (simp add: off_def buffer_def emit_def w1_def)
next
  show "unat off = 32 + unat i * (unat (get_block_size s) + unat (get_iv_size s) + 16)"
    unfolding off_def read_offset_eq by (rule write_offset_nat [OF c i])
qed

theorem read_block_sparse_witness:
  "constructed example_stream \<and> 0 \<le> MAX_BLOCKS
   \<and> (\<exists>n. read_block example_primitives example_stream 0 (replicate 32 9) example_world
              = (Inr n, replicate 32 0,
                 example_world\<lparr>trace := [StreamRead 32 60]\<rparr>) \<and> unat n = 32)
   \<and> 2 \<le> MAX_BLOCKS
   \<and> read_block example_primitives example_stream 2 (replicate 32 9) example_world
        = (Inr 0, replicate 32 9, example_world\<lparr>trace := [StreamRead 152 60]\<rparr>)"
proof -
  have h0: "(0 :: offset_type) \<le> MAX_BLOCKS" by simp
  have h2: "(2 :: offset_type) \<le> MAX_BLOCKS" by (simp add: MAX_BLOCKS_value)
  have v: "get_underlying_block_size example_stream = 60" "get_iv_size example_stream = 12"
    "get_block_size example_stream = 32"
    by (simp_all add: get_underlying_block_size_def get_block_size_def get_iv_size_def
        get_mac_size_def example_stream_def)
  have m: "m_stream example_stream = replicate 132 0" by (simp add: example_stream_def)
  show ?thesis
    using read_block_sparse [OF constructed_example_stream h0,
        where out = "replicate 32 9" and P = example_primitives and w = example_world]
      read_block_sparse [OF constructed_example_stream h2,
        where out = "replicate 32 9" and P = example_primitives and w = example_world]
      constructed_example_stream h0 h2
    by (simp add: v m get_header_size_def example_world_def stream_read_def
        is_all_zeros_replicate)
qed

subsection \<open>C4: the IV of a written block is never all zero\<close>

text \<open>
  C4. For a block number \<open>i \<le> 2^31 - 1\<close> and a plaintext that is not all zero: whenever
  \<open>write_block\<close> returns, it has written one buffer at the block's offset whose first
  \<open>iv_size\<close> bytes, the IV, are not all zero: they are the first draw of \<open>iv_size\<close>
  bytes from the generator that is not all zero, every draw before it having been
  rejected. So the bytes written are never the all-zero pattern that stands for a sparse
  block. And \<open>write_block\<close> does return if some draw from the generator is not all zero.
\<close>

theorem write_block_iv_never_zero:
  fixes s :: AESGCMCryptStream and P :: primitives and w :: world and i :: offset_type
  assumes i: "i \<le> MAX_BLOCKS" and nz: "\<not> is_all_zeros input"
  defines "n \<equiv> unat (get_iv_size s)"
  defines "off \<equiv> i * get_underlying_block_size s + get_header_size"
  shows "(\<forall>r s' w'. write_block P s i input w = Some (r, s', w') \<longrightarrow>
            (\<exists>buffer k. r = Inr () \<and> last (trace w') = StreamWrite off buffer
               \<and> s' = s\<lparr>m_stream := stream_write (m_stream s) off buffer\<rparr>
               \<and> length (take n buffer) = n \<and> \<not> is_all_zeros (take n buffer)
               \<and> \<not> is_all_zeros buffer
               \<and> take n buffer = nth_draw P n w k
               \<and> (\<forall>j<k. is_all_zeros (nth_draw P n w j))))
       \<and> ((\<exists>k. \<not> is_all_zeros (nth_draw P n w k))
            \<longrightarrow> (\<exists>res. write_block P s i input w = Some res))"
proof (intro conjI allI impI)
  fix r s' w'
  assume eq: "write_block P s i input w = Some (r, s', w')"
  have gt: "\<not> i > MAX_BLOCKS" using i by (simp add: not_less)
  from eq gt nz obtain iv w1 where d: "draw_iv P n w = Some (iv, w1)"
    by (auto simp: write_block_def Let_def n_def split: option.splits)
  from draw_iv_Some [OF d] have iv: "\<not> is_all_zeros iv" "length iv = n" by simp_all
  from draw_iv_first [OF d] obtain k where
    k: "iv = nth_draw P n w k" "\<forall>j<k. is_all_zeros (nth_draw P n w j)" by auto
  define ct where "ct = fst (gcm_encrypt P (m_session_key s) iv (to_little_endian (ucast i)) input)"
  define tag where "tag = snd (gcm_encrypt P (m_session_key s) iv (to_little_endian (ucast i)) input)"
  have "r = Inr () \<and> last (trace w') = StreamWrite off (iv @ ct @ tag)
        \<and> s' = s\<lparr>m_stream := stream_write (m_stream s) off (iv @ ct @ tag)\<rparr>"
    using eq gt nz d
    by (auto simp: write_block_def Let_def n_def [symmetric] off_def [symmetric] emit_def
        case_prod_beta ct_def tag_def)
  moreover have "length (take n (iv @ ct @ tag)) = n \<and> \<not> is_all_zeros (take n (iv @ ct @ tag))
        \<and> \<not> is_all_zeros (iv @ ct @ tag)
        \<and> take n (iv @ ct @ tag) = nth_draw P n w k"
    using iv k(1) by (simp add: is_all_zeros_def)
  ultimately show "\<exists>buffer k. r = Inr () \<and> last (trace w') = StreamWrite off buffer
               \<and> s' = s\<lparr>m_stream := stream_write (m_stream s) off buffer\<rparr>
               \<and> length (take n buffer) = n \<and> \<not> is_all_zeros (take n buffer)
               \<and> \<not> is_all_zeros buffer
               \<and> take n buffer = nth_draw P n w k
               \<and> (\<forall>j<k. is_all_zeros (nth_draw P n w j))"
    using k(2) by blast
next
  assume "\<exists>k. \<not> is_all_zeros (nth_draw P n w k)"
  then obtain k where "\<not> is_all_zeros (nth_draw P n w k)" by blast
  then have "\<not> is_all_zeros (map (csprng P) [drawn w + k * n ..< drawn w + k * n + n])"
    by (simp add: nth_draw_def)
  from draw_iv_returns [OF this] obtain res where d: "draw_iv P n w = Some res" by blast
  have gt: "\<not> i > MAX_BLOCKS" using i by (simp add: not_less)
  show "\<exists>res. write_block P s i input w = Some res"
    using gt nz d
    by (simp add: write_block_def Let_def n_def [symmetric] case_prod_beta split: prod.splits)
qed

theorem write_block_iv_never_zero_witness:
  "0 \<le> MAX_BLOCKS \<and> \<not> is_all_zeros [1, 2]
   \<and> \<not> is_all_zeros (map (csprng example_primitives) [12..<24])
   \<and> write_block example_primitives example_stream 0 [1, 2] example_world
       = Some (Inr (),
           example_stream\<lparr>m_stream := stream_write (m_stream example_stream) 32
              (replicate 12 3 @ [2, 3] @ replicate 16 7)\<rparr>,
           \<lparr>drawn = 24,
            trace = [GenerateRandom 12, GenerateRandom 12,
                     EncryptAndAuthenticate (replicate 12 3) [0, 0, 0, 0] [1, 2],
                     StreamWrite 32 (replicate 12 3 @ [2, 3] @ replicate 16 7)]\<rparr>)
   \<and> (\<exists>r s' w' buffer.
         write_block example_primitives example_stream 0 [1, 2] example_world = Some (r, s', w')
       \<and> last (trace w') = StreamWrite 32 buffer \<and> \<not> is_all_zeros (take 12 buffer))"
proof -
  have h0: "(0 :: offset_type) \<le> MAX_BLOCKS" by simp
  have h1: "\<not> is_all_zeros [1, 2]" by (simp add: is_all_zeros_def)
  have h2: "\<not> is_all_zeros (map (csprng example_primitives) [12..<24])"
    unfolding example_second_draw by (simp add: is_all_zeros_def list_all_iff)
  have v: "get_underlying_block_size example_stream = 60" "get_iv_size example_stream = 12"
    "m_session_key example_stream = []"
    by (simp_all add: get_underlying_block_size_def get_block_size_def get_iv_size_def
        get_mac_size_def example_stream_def)
  have le: "to_little_endian 0 = [0, 0, 0, 0]"
    by (simp add: to_little_endian_def)
  have enc: "gcm_encrypt example_primitives [] (replicate 12 3) [0, 0, 0, 0] [1, 2]
               = ([2, 3], replicate 16 7)"
    by (simp add: example_primitives_def)
  have ev: "write_block example_primitives example_stream 0 [1, 2] example_world
       = Some (Inr (),
           example_stream\<lparr>m_stream := stream_write (m_stream example_stream) 32
              (replicate 12 3 @ [2, 3] @ replicate 16 7)\<rparr>,
           \<lparr>drawn = 24,
            trace = [GenerateRandom 12, GenerateRandom 12,
                     EncryptAndAuthenticate (replicate 12 3) [0, 0, 0, 0] [1, 2],
                     StreamWrite 32 (replicate 12 3 @ [2, 3] @ replicate 16 7)]\<rparr>)"
    using h1
    by (simp add: write_block_def Let_def v le example_draw_iv get_header_size_def emit_def
        enc)
  have "\<exists>k. \<not> is_all_zeros (nth_draw example_primitives 12 example_world k)"
    using h2 by (intro exI [of _ 1]) (simp add: nth_draw_def example_world_def)
  with write_block_iv_never_zero [OF h0 h1, where P = example_primitives
      and s = example_stream and w = example_world]
  have "\<exists>r s' w' buffer.
         write_block example_primitives example_stream 0 [1, 2] example_world = Some (r, s', w')
       \<and> last (trace w') = StreamWrite 32 buffer \<and> \<not> is_all_zeros (take 12 buffer)"
    by (auto simp: v get_header_size_def)
  with h0 h1 h2 ev show ?thesis by blast
qed

subsection \<open>C5: verification failure and the \<open>check\<close> flag\<close>

text \<open>
  C5. For a block number \<open>i \<le> 2^31 - 1\<close> whose \<open>r > iv_size + 16\<close> bytes are not all
  zero, \<open>read_block\<close> throws \<open>MessageVerification\<close> exactly when the tag does not
  verify and the stream was built with \<open>check = true\<close>. In every other case (the
  tag verifies, or \<open>check = false\<close>) it returns \<open>r - iv_size - 16\<close> and the output holds
  the decrypted bytes: with \<open>check = false\<close> also when the tag did not verify.
\<close>

theorem read_block_verification:
  fixes s :: AESGCMCryptStream and w :: world and P :: primitives and i :: offset_type
  assumes c: "constructed s" and i: "i \<le> MAX_BLOCKS"
  defines "off \<equiv> get_header_size + get_underlying_block_size s * i"
  defines "buffer \<equiv> stream_read (m_stream s) off (get_underlying_block_size s)"
  defines "r \<equiv> length buffer"
  defines "n \<equiv> unat (get_iv_size s)"
  defines "iv \<equiv> take n buffer"
  defines "ct \<equiv> take (r - n - 16) (drop n buffer)"
  defines "tag \<equiv> drop (r - 16) buffer"
  defines "aad \<equiv> to_little_endian (ucast i)"
  defines "res \<equiv> gcm_decrypt P (m_session_key s) iv aad ct tag"
  defines "w2 \<equiv> w\<lparr>trace := trace w @ [StreamRead off (get_underlying_block_size s),
                                         DecryptAndVerify iv aad ct tag]\<rparr>"
  assumes big: "r > n + 16" and nz: "\<not> is_all_zeros buffer"
  shows "(fst (read_block P s i out w) = Inl MessageVerification \<longleftrightarrow> m_check s \<and> \<not> snd res)
       \<and> (\<not> m_check s \<or> snd res \<longrightarrow>
            (\<exists>count. read_block P s i out w = (Inr count, overwrite out (fst res), w2)
                    \<and> unat count = r - n - 16))"
proof -
  let ?rc = "of_nat (length buffer) :: length_type"
  let ?n = "?rc - get_iv_size s - get_mac_size"
  have nle: "\<not> length buffer \<le> unat (get_iv_size s) + 16"
    using big by (simp add: r_def n_def)
  have big': "length buffer > unat (get_iv_size s) + 16"
    using big by (simp add: r_def n_def)
  have sz: "unat ?n = r - n - 16" and sz2: "unat (?rc - get_mac_size) = r - 16"
    using read_sizes [OF c, of off] big' by (simp_all add: buffer_def r_def n_def)
  have tg: "take (unat get_mac_size) (drop (r - 16) buffer) = tag"
    using big by (simp add: tag_def r_def get_mac_size_def)
  have eq: "read_block P s i out w =
      (if m_check s \<and> \<not> snd res then (Inl MessageVerification, overwrite out (fst res), w2)
       else (Inr ?n, overwrite out (fst res), w2))"
    unfolding read_block_unfold [OF c i] Let_def
    using nle nz
    by (simp add: off_def [symmetric] buffer_def [symmetric] sz sz2 tg n_def [symmetric]
        iv_def ct_def aad_def res_def emit_def w2_def case_prod_beta)
  show ?thesis
    using sz by (auto simp: eq)
qed

theorem read_block_verification_witness:
  "constructed example_unchecked \<and> 0 \<le> MAX_BLOCKS
   \<and> \<not> snd (gcm_decrypt example_primitives [] (replicate 12 5) [0, 0, 0, 0]
              (replicate 4 5) (replicate 16 5))
   \<and> fst (read_block example_primitives example_unchecked 0 (replicate 32 9) example_world)
        \<noteq> Inl MessageVerification
   \<and> (\<exists>count. read_block example_primitives example_unchecked 0 (replicate 32 9) example_world
         = (Inr count, replicate 4 4 @ replicate 28 9,
            example_world\<lparr>trace := [StreamRead 32 60,
               DecryptAndVerify (replicate 12 5) [0, 0, 0, 0] (replicate 4 5) (replicate 16 5)]\<rparr>)
         \<and> unat count = 4)"
proof -
  have h0: "(0 :: offset_type) \<le> MAX_BLOCKS" by simp
  have v: "get_underlying_block_size example_unchecked = 60"
    "get_iv_size example_unchecked = 12" "m_check example_unchecked = False"
    "m_session_key example_unchecked = []"
    by (simp_all add: get_underlying_block_size_def get_block_size_def get_iv_size_def
        get_mac_size_def example_unchecked_def)
  have b: "stream_read (m_stream example_unchecked) 32 60 = replicate 32 5"
    by (simp add: stream_read_def example_unchecked_def)
  have nz: "\<not> is_all_zeros (replicate 32 5)"
    by (simp add: is_all_zeros_def list_all_iff)
  have d: "gcm_decrypt example_primitives [] (replicate 12 5) [0, 0, 0, 0]
              (replicate 4 5) (replicate 16 5) = (replicate 4 4, False)"
    by (simp add: example_primitives_def)
  have le: "to_little_endian 0 = [0, 0, 0, 0]"
    by (simp add: to_little_endian_def)
  show ?thesis
    using read_block_verification [OF constructed_example_unchecked h0,
        where out = "replicate 32 9" and P = example_primitives and w = example_world]
      constructed_example_unchecked h0
    by (simp add: v b nz d le get_header_size_def example_world_def overwrite_def)
qed

subsection \<open>C6: the limit on block numbers\<close>

text \<open>
  C6. For a block number above \<open>2^31 - 1\<close>, \<open>read_block\<close> and \<open>write_block\<close> both
  throw \<open>StreamTooLong\<close> and leave the stream, the output buffer and the world as they
  were (no call on the inner stream); for a block number up to \<open>2^31 - 1\<close> neither
  throws \<open>StreamTooLong\<close>.
\<close>

theorem block_number_limit:
  "(i > MAX_BLOCKS \<longrightarrow>
      read_block P s i out w
        = (Inl (StreamTooLong (MAX_BLOCKS * get_block_size s) (i * get_block_size s)), out, w)
    \<and> write_block P s i input w
        = Some (Inl (StreamTooLong (MAX_BLOCKS * get_block_size s) (i * get_block_size s)), s, w))
   \<and> (i \<le> MAX_BLOCKS \<longrightarrow>
      (\<forall>a b. fst (read_block P s i out w) \<noteq> Inl (StreamTooLong a b))
    \<and> (\<forall>a b s' w'. write_block P s i input w \<noteq> Some (Inl (StreamTooLong a b), s', w')))"
proof (intro conjI impI allI)
  assume "i > MAX_BLOCKS"
  then show "read_block P s i out w
        = (Inl (StreamTooLong (MAX_BLOCKS * get_block_size s) (i * get_block_size s)), out, w)"
    by (simp add: read_block_def)
next
  assume "i > MAX_BLOCKS"
  then show "write_block P s i input w
        = Some (Inl (StreamTooLong (MAX_BLOCKS * get_block_size s) (i * get_block_size s)), s, w)"
    by (simp add: write_block_def)
next
  fix a b
  assume "i \<le> MAX_BLOCKS"
  then have "\<not> i > MAX_BLOCKS" by (simp add: not_less)
  then show "fst (read_block P s i out w) \<noteq> Inl (StreamTooLong a b)"
    by (simp add: read_block_def Let_def split: prod.splits)
next
  fix a b s' w'
  assume "i \<le> MAX_BLOCKS"
  then have "\<not> i > MAX_BLOCKS" by (simp add: not_less)
  then show "write_block P s i input w \<noteq> Some (Inl (StreamTooLong a b), s', w')"
    by (simp add: write_block_def Let_def split: prod.splits option.splits)
qed

theorem block_number_limit_witness:
  "MAX_BLOCKS < 2147483648
   \<and> read_block example_primitives example_stream 2147483648 [] example_world
        = (Inl (StreamTooLong 68719476704 68719476736), [], example_world)
   \<and> write_block example_primitives example_stream 2147483648 [1] example_world
        = Some (Inl (StreamTooLong 68719476704 68719476736), example_stream, example_world)
   \<and> 2147483647 \<le> MAX_BLOCKS
   \<and> (\<forall>a b. fst (read_block example_primitives example_stream 2147483647 [] example_world)
          \<noteq> Inl (StreamTooLong a b))"
proof -
  have h1: "MAX_BLOCKS < 2147483648" by (simp add: MAX_BLOCKS_value)
  have h2: "2147483647 \<le> MAX_BLOCKS" by (simp add: MAX_BLOCKS_value)
  have v: "get_block_size example_stream = 32"
    by (simp add: get_block_size_def example_stream_def)
  show ?thesis
    using block_number_limit [where i = 2147483648 and P = example_primitives
        and s = example_stream and out = "[]" and w = example_world and input = "[1]"]
      block_number_limit [where i = 2147483647 and P = example_primitives
        and s = example_stream and out = "[]" and w = example_world and input = "[1]"] h1 h2
    by (simp add: v MAX_BLOCKS_value)
qed

subsection \<open>C7: the header at construction\<close>

text \<open>
  C7. With arguments that pass the constructor's checks, the constructor reads 32 bytes
  at offset 0 of the inner stream. If the read returns nothing, 32 fresh random bytes
  become the header and are written at offset 0; if it returns a count other than 0 or 32
  the constructor throws \<open>InvalidArgument\<close>; if it returns 32 bytes they are the header.
  The session key is the AES-ECB encryption of the header under the master key.
\<close>

theorem construction_header:
  fixes P :: primitives and w :: world and d master_key :: "byte list" and check :: bool
    and block_size iv_size :: "32 word"
  assumes "12 \<le> iv_size" and "iv_size \<le> 32" and "32 \<le> block_size"
  defines "header \<equiv> stream_read d 0 32"
  defines "fresh \<equiv> map (csprng P) [drawn w ..< drawn w + 32]"
  defines "result \<equiv> AESGCMCryptStream_new P (Some d) master_key block_size iv_size check w"
  shows "(length header = 0 \<longrightarrow>
            result = (Inr \<lparr>m_stream = stream_write d 0 fresh, m_block_size = ucast block_size,
                            m_iv_size = iv_size, m_check = check,
                            m_session_key = aes_ecb P master_key fresh\<rparr>,
                      w\<lparr>drawn := drawn w + 32,
                        trace := trace w @ [StreamRead 0 32, GenerateRandom 32,
                                            StreamWrite 0 fresh]\<rparr>))
       \<and> (length header \<noteq> 0 \<and> length header \<noteq> 32 \<longrightarrow>
            result = (Inl (InvalidArgument ''Underlying stream has invalid header size''),
                      w\<lparr>trace := trace w @ [StreamRead 0 32]\<rparr>))
       \<and> (length header = 32 \<longrightarrow>
            result = (Inr \<lparr>m_stream = d, m_block_size = ucast block_size,
                            m_iv_size = iv_size, m_check = check,
                            m_session_key = aes_ecb P master_key header\<rparr>,
                      w\<lparr>trace := trace w @ [StreamRead 0 32]\<rparr>))"
proof -
  have a: "\<not> (iv_size < 12 \<or> iv_size > 32)" "\<not> block_size < 32"
    using assms(1-3) by (simp_all add: not_less)
  have e: "result =
     (if length header = 0 then
        (Inr \<lparr>m_stream = stream_write d 0 fresh, m_block_size = ucast block_size,
               m_iv_size = iv_size, m_check = check,
               m_session_key = aes_ecb P master_key fresh\<rparr>,
         w\<lparr>drawn := drawn w + 32,
           trace := trace w @ [StreamRead 0 32, GenerateRandom 32, StreamWrite 0 fresh]\<rparr>)
      else if length header \<noteq> 32 then
        (Inl (InvalidArgument ''Underlying stream has invalid header size''),
         w\<lparr>trace := trace w @ [StreamRead 0 32]\<rparr>)
      else
        (Inr \<lparr>m_stream = d, m_block_size = ucast block_size,
               m_iv_size = iv_size, m_check = check,
               m_session_key = aes_ecb P master_key header\<rparr>,
         w\<lparr>trace := trace w @ [StreamRead 0 32]\<rparr>))"
    unfolding result_def AESGCMCryptStream_new_def
    using a
    by (simp add: Let_def get_header_size_def generate_random_def emit_def
        header_def fresh_def)
  show ?thesis by (simp add: e)
qed

theorem construction_header_witness:
  "(12 :: 32 word) \<le> 12 \<and> (12 :: 32 word) \<le> 32 \<and> (32 :: 32 word) \<le> 4096
   \<and> length (stream_read [] 0 32) = 0
   \<and> AESGCMCryptStream_new example_primitives (Some []) [9] 4096 12 True example_world
       = (Inr \<lparr>m_stream = stream_write [] 0 (map (csprng example_primitives) [0..<32]),
                m_block_size = 4096, m_iv_size = 12, m_check = True,
                m_session_key = aes_ecb example_primitives [9]
                                  (map (csprng example_primitives) [0..<32])\<rparr>,
          \<lparr>drawn = 32,
           trace = [StreamRead 0 32, GenerateRandom 32,
                    StreamWrite 0 (map (csprng example_primitives) [0..<32])]\<rparr>)
   \<and> length (stream_read [1, 2, 3] 0 32) = 3
   \<and> AESGCMCryptStream_new example_primitives (Some [1, 2, 3]) [9] 4096 12 True example_world
       = (Inl (InvalidArgument ''Underlying stream has invalid header size''),
          \<lparr>drawn = 0, trace = [StreamRead 0 32]\<rparr>)
   \<and> length (stream_read (replicate 40 1) 0 32) = 32
   \<and> AESGCMCryptStream_new example_primitives (Some (replicate 40 1)) [9] 4096 12 True
        example_world
       = (Inr \<lparr>m_stream = replicate 40 1, m_block_size = 4096, m_iv_size = 12,
                m_check = True, m_session_key = replicate 32 2\<rparr>,
          \<lparr>drawn = 0, trace = [StreamRead 0 32]\<rparr>)"
proof -
  have h: "(12 :: 32 word) \<le> 12" "(12 :: 32 word) \<le> 32" "(32 :: 32 word) \<le> 4096"
    by simp_all
  have l: "length (stream_read [] 0 32) = 0" "length (stream_read [1, 2, 3] 0 32) = 3"
    "length (stream_read (replicate 40 1) 0 32) = 32"
    by (simp_all add: stream_read_def)
  have k: "aes_ecb example_primitives [9] (stream_read (replicate 40 1) 0 32) = replicate 32 2"
    by (simp add: example_primitives_def stream_read_def)
  show ?thesis
    using construction_header [OF h, where P = example_primitives and w = example_world
        and d = "[]" and master_key = "[9]" and check = True]
      construction_header [OF h, where P = example_primitives and w = example_world
        and d = "[1, 2, 3]" and master_key = "[9]" and check = True]
      construction_header [OF h, where P = example_primitives and w = example_world
        and d = "replicate 40 1" and master_key = "[9]" and check = True]
    by (simp add: l k example_world_def)
qed

section \<open>Properties of the callbacks\<close>

subsection \<open>The exits of the callbacks\<close>


















lemma get_local_filesystem_calls: "calls (snd (get_local_filesystem h opt \<sigma>)) = calls \<sigma>"
  by (simp add: get_local_filesystem_def Let_def split: option.splits)

subsection \<open>Machine arithmetic of the name length\<close>

lemma namemax_arith:
  fixes x :: "64 word"
  assumes "26 \<le> unat x" and "unat x \<le> (2 ^ 64 - 1) div 5"
  shows "unat (x * 5 div 8 - 16) = unat x * 5 div 8 - 16"
proof -
  have m: "unat (x * 5) = unat x * 5"
    using assms(2) by (simp add: unat_word_ariths)
  have d: "unat (x * 5 div 8) = unat x * 5 div 8"
    by (simp add: unat_div m)
  have "16 \<le> unat x * 5 div 8" using assms(1) by simp
  then have "(16 :: 64 word) \<le> x * 5 div 8"
    by (simp add: word_le_nat_alt d)
  then show ?thesis
    by (simp add: unat_sub d)
qed

subsection \<open>Facts about the concrete host\<close>

lemma example_filesystem:
  "get_local_filesystem h example_options example_thread
     = (Inr \<lparr>fs_root = ''/data'', name_key = replicate 32 1, content_key = replicate 32 1,
              xattr_key = replicate 32 1, fs_block_size = 4096, fs_iv_size = 12, fs_flags = 0\<rparr>,
        \<lparr>opt_fs = Some \<lparr>fs_root = ''/data'', name_key = replicate 32 1,
              content_key = replicate 32 1, xattr_key = replicate 32 1, fs_block_size = 4096,
              fs_iv_size = 12, fs_flags = 0\<rparr>, calls = []\<rparr>)"
  by (simp add: get_local_filesystem_def example_options_def example_thread_def KEY_LENGTH_def
      Let_def)

lemma example_host_answers:
  "answer_void example_host history c = None"
  "answer_bool example_host history c = Inr True"
  "answer_word example_host history FS_statvfs = Inr 255"
  "answer_word example_host history (FS_open path fl mode) = Inr 7"
  "answer_word example_host history (File_read fp off n) = Inr 7"
  by (simp_all add: example_host_def)

subsection \<open>C8: what the callbacks return\<close>




subsection \<open>C9: the name length that \<open>statfs\<close> reports\<close>

text \<open>
  C9, as the code has it. When \<open>statfs\<close> succeeds, the host answered \<open>statvfs\<close> with
  some \<open>f_namemax\<close>; if that value is at least 26 and at most \<open>(2^64 - 1) div 5\<close>, the
  \<open>f_namemax\<close> handed to the caller is the integer \<open>host_namemax * 5 div 8 - 16\<close>.
\<close>

theorem statfs_namemax:
  assumes "lite_statfs h opt path buf \<sigma> = (Returned v, buf', \<sigma>')"
  shows "\<exists>host_namemax.
           answer_word h (calls \<sigma>) FS_statvfs = Inr host_namemax
         \<and> (26 \<le> unat host_namemax \<and> unat host_namemax \<le> (2 ^ 64 - 1) div 5 \<longrightarrow>
              (\<exists>reported. buf' = Some reported
                 \<and> int (unat reported) = int (unat host_namemax) * 5 div 8 - 16))"
proof (cases "get_local_filesystem h opt \<sigma>")
  case (Pair r \<sigma>1)
  have c: "calls \<sigma>1 = calls \<sigma>"
    using get_local_filesystem_calls [of h opt \<sigma>] Pair by simp
  show ?thesis
  proof (cases r)
    case (Inl e)
    with Pair assms show ?thesis by (simp add: lite_statfs_def)
  next
    case (Inr fs)
    show ?thesis
    proof (cases buf)
      case None
      with Pair Inr assms show ?thesis by (simp add: lite_statfs_def)
    next
      case (Some b)
      show ?thesis
      proof (cases "answer_word h (calls \<sigma>) FS_statvfs")
        case e: (Inl e)
        with Pair Inr Some assms c show ?thesis
          by (simp add: lite_statfs_def call_word_def catch_def)
      next
        case x: (Inr x)
        have b: "buf' = Some (x * 5 div 8 - 16)"
          using Pair Inr Some assms c x by (simp add: lite_statfs_def call_word_def)
        have "int (unat (x * 5 div 8 - 16)) = int (unat x) * 5 div 8 - 16"
          if "26 \<le> unat x" "unat x \<le> (2 ^ 64 - 1) div 5"
        proof -
          have "16 \<le> unat x * 5 div 8" using that(1) by simp
          then show ?thesis
            unfolding namemax_arith [OF that]
            by (simp add: of_nat_diff zdiv_int)
        qed
        with x b show ?thesis by simp
      qed
    qed
  qed
qed

theorem statfs_namemax_witness:
  "fst (lite_statfs example_host example_options ''/'' (Some 0) example_thread) = Returned 0
   \<and> fst (snd (lite_statfs example_host example_options ''/'' (Some 0) example_thread))
       = Some 143
   \<and> answer_word example_host (calls example_thread) FS_statvfs = Inr 255
   \<and> 26 \<le> unat (255 :: 64 word) \<and> unat (255 :: 64 word) \<le> (2 ^ 64 - 1) div 5
   \<and> int (unat (143 :: 64 word)) = int (unat (255 :: 64 word)) * 5 div 8 - 16"
proof -
  have e1: "fst (lite_statfs example_host example_options ''/'' (Some 0) example_thread)
              = Returned 0"
    and e2: "fst (snd (lite_statfs example_host example_options ''/'' (Some 0) example_thread))
              = Some 143"
    by (simp_all add: lite_statfs_def example_filesystem call_word_def example_host_answers)
  have ev: "lite_statfs example_host example_options ''/'' (Some 0) example_thread
     = (Returned 0, Some 143,
        snd (snd (lite_statfs example_host example_options ''/'' (Some 0) example_thread)))"
    using e1 e2 by (metis prod.collapse)
  from statfs_namemax [OF ev] have
    "int (unat (143 :: 64 word)) = int (unat (255 :: 64 word)) * 5 div 8 - 16"
    by (simp add: example_host_answers)
  with e1 e2 show ?thesis by (simp add: example_host_answers)
qed

text \<open>
  C9 for every successful call fails: the field is unsigned, so for a host whose
  \<open>f_namemax\<close> is 10 the callback reports \<open>2^64 - 10\<close>, not \<open>10 * 5 div 8 - 16 = -10\<close>.
\<close>

theorem statfs_namemax_counterexample:
  "answer_word short_names_host (calls example_thread) FS_statvfs = Inr 10
   \<and> fst (lite_statfs short_names_host example_options ''/'' (Some 0) example_thread)
       = Returned 0
   \<and> fst (snd (lite_statfs short_names_host example_options ''/'' (Some 0) example_thread))
       = Some 18446744073709551606
   \<and> int (unat (18446744073709551606 :: 64 word)) \<noteq> int (unat (10 :: 64 word)) * 5 div 8 - 16"
proof -
  have a: "answer_word short_names_host history c = Inr 10" for history c
    by (simp add: short_names_host_def)
  show ?thesis
    by (simp add: lite_statfs_def example_filesystem call_word_def a)
qed

subsection \<open>C10: \<open>truncate\<close> with a negative length\<close>

text \<open>
  C10. For every path and every negative length, \<open>truncate\<close> returns \<open>-EINVAL\<close> and
  leaves the thread's state as it was: no file system is constructed for the thread and
  no call reaches the host, so no file is opened.
\<close>

theorem truncate_negative_length:
  assumes "sint len < 0"
  shows "lite_truncate h opt path len \<sigma> = (Rejected (- EINVAL), \<sigma>)"
  using assms by (simp add: lite_truncate_def)

theorem truncate_negative_length_witness:
  "sint (- 1 :: 64 word) < 0
   \<and> lite_truncate example_host example_options ''/a'' (- 1) example_thread
       = (Rejected (- 22), example_thread)"
proof -
  have n: "sint (- 1 :: 64 word) < 0" by simp
  show ?thesis
    using truncate_negative_length [OF n, of example_host example_options "''/a''"
        example_thread] n
    by (simp add: EINVAL_def)
qed

text \<open>For comparison, a call with a length that is not negative constructs the file
  system, opens the file, resizes it under its lock and closes it.\<close>

lemma truncate_example:
  "lite_truncate example_host example_options ''/a'' 3 example_thread
     = (Returned 0,
        \<lparr>opt_fs = Some \<lparr>fs_root = ''/data'', name_key = replicate 32 1,
              content_key = replicate 32 1, xattr_key = replicate 32 1, fs_block_size = 4096,
              fs_iv_size = 12, fs_flags = 0\<rparr>,
         calls = [FS_open ''/a'' [O_RDWR] 420, File_lock 7 True, File_resize 7 3,
                  File_unlock 7, File_delete 7]\<rparr>)"
  by (simp add: lite_truncate_def example_filesystem call_word_def call_void_def locked_def
      call_noexcept_def example_host_answers)

end
